theory Spec2Isabelle
  imports Main "HOL-Library.AList"
begin

section \<open>Data model (server/src/types)\<close>

text \<open>
  A JavaScript \<open>Map\<close> is an association list in insertion order: \<open>Map.get\<close> is
  \<open>map_of\<close>, \<open>Map.set\<close> is \<open>AList.update\<close> (an existing key keeps its position, a new
  key goes to the end), \<open>Map.delete\<close> is \<open>AList.delete\<close>, \<open>Map.size\<close> is \<open>length\<close>.
  A \<open>Date\<close> is its \<open>getTime()\<close> value in milliseconds. An optional string is a
  \<open>string option\<close>. The fields \<open>id\<close>, \<open>name\<close> and \<open>lastActivity\<close> exist in both
  interfaces and carry a suffix here.
\<close>

type_synonym time = int

record User =
  id_u :: string
  name_u :: string
  isHost :: bool
  joinedAt :: time
  lastActivity_u :: time

record Room =
  id_r :: string
  name_r :: string
  password :: "string option"
  users :: "(string \<times> User) list"
  currentUrl :: string
  createdAt :: time
  lastActivity_r :: time
  maxUsers :: int

text \<open>
  The state of a \<open>RoomManager\<close>: its two maps, and the callbacks that \<open>leaveRoom\<close>
  has handed to \<open>setTimeout\<close> and that have not run yet, each with the time at which
  it is due and the room id it closes over.
\<close>

record RoomManager =
  rooms :: "(string \<times> Room) list"
  userToRoom :: "(string \<times> string) list"
  timers :: "(time \<times> string) list"

definition newRoomManager :: RoomManager where
  "newRoomManager = \<lparr>rooms = [], userToRoom = [], timers = []\<rparr>"

text \<open>JavaScript truthiness of an optional string: \<open>undefined\<close> and \<open>''\<close> are falsy.\<close>

definition truthy :: "string option \<Rightarrow> bool" where
  "truthy s = (case s of None \<Rightarrow> False | Some x \<Rightarrow> x \<noteq> [])"

section \<open>RoomManager (server/src/room/RoomManager.ts)\<close>

text \<open>
  \<open>createRoom\<close>: the id is what \<open>uuidv4()\<close> returned and \<open>now\<close> what \<open>new Date()\<close>
  returned; \<open>maxUsers\<close> defaults to 10 when the argument is \<open>undefined\<close>.
\<close>

definition createRoom ::
  "time \<Rightarrow> string \<Rightarrow> string \<Rightarrow> string option \<Rightarrow> int option \<Rightarrow> RoomManager \<Rightarrow> Room \<times> RoomManager" where
  "createRoom now roomId name pw maxU s =
     (let room = \<lparr>id_r = roomId, name_r = name, password = pw, users = [],
                  currentUrl = ''https://www.google.com'', createdAt = now,
                  lastActivity_r = now,
                  maxUsers = (case maxU of None \<Rightarrow> 10 | Some m \<Rightarrow> m)\<rparr>
      in (room, s\<lparr>rooms := AList.update roomId room (rooms s)\<rparr>))"

text \<open>
  \<open>joinRoom\<close> returns \<open>{success: false, error}\<close> as \<open>Inl error\<close> and
  \<open>{success: true, room}\<close> as \<open>Inr room\<close>, together with the manager's state.
\<close>

definition joinRoom ::
  "time \<Rightarrow> string \<Rightarrow> string \<Rightarrow> string \<Rightarrow> string option \<Rightarrow> RoomManager
     \<Rightarrow> (string + Room) \<times> RoomManager" where
  "joinRoom now roomId userId userName pw s =
     (case map_of (rooms s) roomId of
        None \<Rightarrow> (Inl ''Room not found'', s)
      | Some room \<Rightarrow>
          if truthy (password room) \<and> password room \<noteq> pw
            then (Inl ''Invalid password'', s)
          else if maxUsers room \<le> int (length (users room))
            then (Inl ''Room is full'', s)
          else if map_of (users room) userId \<noteq> None
            then (Inl ''User already in room'', s)
          else
            (let user = \<lparr>id_u = userId, name_u = userName,
                         isHost = (length (users room) = 0),
                         joinedAt = now, lastActivity_u = now\<rparr>;
                 room' = room\<lparr>users := AList.update userId user (users room),
                              lastActivity_r := now\<rparr>
             in (Inr room',
                 s\<lparr>rooms := AList.update roomId room' (rooms s),
                   userToRoom := AList.update userId roomId (userToRoom s)\<rparr>)))"

text \<open>
  The host update of \<open>leaveRoom\<close>: \<open>Array.from(room.users.values())\<close> lists the users
  in insertion order, and \<open>users[0].isHost = true\<close> writes to the first of them.
\<close>

definition updateHost :: "(string \<times> User) list \<Rightarrow> (string \<times> User) list" where
  "updateHost us =
     (if length us > 0 \<and> \<not> list_ex (\<lambda>(k, u). isHost u) us
      then (case us of [] \<Rightarrow> [] | (k, u) # rest \<Rightarrow> (k, u\<lparr>isHost := True\<rparr>) # rest)
      else us)"

definition gracePeriod :: int where
  "gracePeriod = 300000"

definition leaveRoom :: "time \<Rightarrow> string \<Rightarrow> RoomManager \<Rightarrow> bool \<times> RoomManager" where
  "leaveRoom now userId s =
     (case map_of (userToRoom s) userId of
        None \<Rightarrow> (False, s)
      | Some roomId \<Rightarrow>
          if roomId = [] then (False, s)
          else
            (case map_of (rooms s) roomId of
               None \<Rightarrow> (False, s)
             | Some room \<Rightarrow>
                 (let us = AList.delete userId (users room);
                      u2r = AList.delete userId (userToRoom s)
                  in if length us = 0
                     then (True,
                           s\<lparr>rooms := AList.update roomId (room\<lparr>users := us\<rparr>) (rooms s),
                             userToRoom := u2r,
                             timers := timers s @ [(now + gracePeriod, roomId)]\<rparr>)
                     else (True,
                           s\<lparr>rooms := AList.update roomId (room\<lparr>users := updateHost us\<rparr>)
                                        (rooms s),
                             userToRoom := u2r\<rparr>))))"

text \<open>The callback that \<open>leaveRoom\<close> passes to \<open>setTimeout\<close>, for the room id it closes over.\<close>

definition deleteEmptyRoom :: "string \<Rightarrow> RoomManager \<Rightarrow> RoomManager" where
  "deleteEmptyRoom roomId s =
     (case map_of (rooms s) roomId of
        None \<Rightarrow> s
      | Some room \<Rightarrow>
          if length (users room) = 0 then s\<lparr>rooms := AList.delete roomId (rooms s)\<rparr> else s)"

definition getRoom :: "string \<Rightarrow> RoomManager \<Rightarrow> Room option" where
  "getRoom roomId s = map_of (rooms s) roomId"

definition getUserRoom :: "string \<Rightarrow> RoomManager \<Rightarrow> Room option" where
  "getUserRoom userId s =
     (case map_of (userToRoom s) userId of
        None \<Rightarrow> None
      | Some roomId \<Rightarrow> if roomId = [] then None else map_of (rooms s) roomId)"

definition getRoomUsers :: "string \<Rightarrow> RoomManager \<Rightarrow> User list" where
  "getRoomUsers roomId s =
     (case map_of (rooms s) roomId of None \<Rightarrow> [] | Some room \<Rightarrow> map snd (users room))"

definition updateRoomUrl :: "time \<Rightarrow> string \<Rightarrow> string \<Rightarrow> RoomManager \<Rightarrow> bool \<times> RoomManager" where
  "updateRoomUrl now roomId url s =
     (case map_of (rooms s) roomId of
        None \<Rightarrow> (False, s)
      | Some room \<Rightarrow>
          (True, s\<lparr>rooms := AList.update roomId
                     (room\<lparr>currentUrl := url, lastActivity_r := now\<rparr>) (rooms s)\<rparr>))"

definition updateUserActivity :: "time \<Rightarrow> string \<Rightarrow> RoomManager \<Rightarrow> RoomManager" where
  "updateUserActivity now userId s =
     (case map_of (userToRoom s) userId of
        None \<Rightarrow> s
      | Some roomId \<Rightarrow>
          if roomId = [] then s
          else
            (case map_of (rooms s) roomId of
               None \<Rightarrow> s
             | Some room \<Rightarrow>
                 (let us = (case map_of (users room) userId of
                              None \<Rightarrow> users room
                            | Some user \<Rightarrow>
                                AList.update userId (user\<lparr>lastActivity_u := now\<rparr>) (users room))
                  in s\<lparr>rooms := AList.update roomId
                         (room\<lparr>users := us, lastActivity_r := now\<rparr>) (rooms s)\<rparr>)))"

definition inactivityTimeout :: int where
  "inactivityTimeout = 30 * 60 * 1000"

text \<open>
  One turn of the outer loop of \<open>cleanup\<close>, for the entry \<open>(roomId, room)\<close> of
  \<open>this.rooms\<close>: the inner loop deletes every inactive user from the room and from
  \<open>userToRoom\<close> (deleting the entry a \<open>Map\<close> iterator stands on is safe, every other
  entry is still visited), then the room goes if it is empty and inactive. A turn
  touches no other room, so the outer loop sees every room as it was at the start.
\<close>

definition inactive :: "time \<Rightarrow> time \<Rightarrow> bool" where
  "inactive now t = (now - t > inactivityTimeout)"

definition cleanupRoom :: "time \<Rightarrow> string \<times> Room \<Rightarrow> RoomManager \<Rightarrow> RoomManager" where
  "cleanupRoom now e s =
     (let roomId = fst e; room = snd e;
          gone = filter (\<lambda>(k, u). inactive now (lastActivity_u u)) (users room);
          us = filter (\<lambda>(k, u). \<not> inactive now (lastActivity_u u)) (users room);
          u2r = fold (\<lambda>(k, u) m. AList.delete k m) gone (userToRoom s)
      in if length us = 0 \<and> inactive now (lastActivity_r room)
         then s\<lparr>rooms := AList.delete roomId (rooms s), userToRoom := u2r\<rparr>
         else s\<lparr>rooms := AList.update roomId (room\<lparr>users := us\<rparr>) (rooms s),
                userToRoom := u2r\<rparr>)"

definition cleanup :: "time \<Rightarrow> RoomManager \<Rightarrow> RoomManager" where
  "cleanup now s = fold (cleanupRoom now) (rooms s) s"

text \<open>
  The timer queue: at time \<open>now\<close> every pending callback that is due runs, in the
  order in which it was scheduled, and leaves the queue.
\<close>

definition runTimers :: "time \<Rightarrow> RoomManager \<Rightarrow> RoomManager" where
  "runTimers now s =
     fold (\<lambda>(due, roomId). deleteEmptyRoom roomId)
          (filter (\<lambda>(due, roomId). due \<le> now) (timers s))
          (s\<lparr>timers := filter (\<lambda>(due, roomId). \<not> due \<le> now) (timers s)\<rparr>)"

text \<open>The operations of the store as data, and a run of them from the empty store.\<close>

datatype Op =
    CreateRoom time string string "string option" "int option"
  | JoinRoom time string string string "string option"
  | LeaveRoom time string
  | UpdateRoomUrl time string string
  | UpdateUserActivity time string
  | Cleanup time
  | RunTimers time

fun exec :: "Op \<Rightarrow> RoomManager \<Rightarrow> RoomManager" where
  "exec (CreateRoom now roomId name pw maxU) s = snd (createRoom now roomId name pw maxU s)"
| "exec (JoinRoom now roomId userId userName pw) s = snd (joinRoom now roomId userId userName pw s)"
| "exec (LeaveRoom now userId) s = snd (leaveRoom now userId s)"
| "exec (UpdateRoomUrl now roomId url) s = snd (updateRoomUrl now roomId url s)"
| "exec (UpdateUserActivity now userId) s = updateUserActivity now userId s"
| "exec (Cleanup now) s = cleanup now s"
| "exec (RunTimers now) s = runTimers now s"

definition run :: "Op list \<Rightarrow> RoomManager" where
  "run ops = fold exec ops newRoomManager"

definition hosts :: "Room \<Rightarrow> (string \<times> User) list" where
  "hosts room = filter (\<lambda>(k, u). isHost u) (users room)"

text \<open>Properties of single rooms, and their validity for every room of a store.\<close>

definition allRooms :: "(Room \<Rightarrow> bool) \<Rightarrow> RoomManager \<Rightarrow> bool" where
  "allRooms P s = (\<forall>e \<in> set (rooms s). P (snd e))"

definition withinCapacity :: "Room \<Rightarrow> bool" where
  "withinCapacity room = (0 \<le> maxUsers room \<longrightarrow> int (length (users room)) \<le> maxUsers room)"

definition atMostOneHost :: "Room \<Rightarrow> bool" where
  "atMostOneHost room = (length (hosts room) \<le> 1)"

section \<open>SignalingHandler (server/src/signaling/SignalingHandler.ts)\<close>

text \<open>
  What socket.io keeps for the handler, as this file uses it. \<open>adapterRooms\<close> lists the
  pairs (socket id, room name) of sockets that are in a room: \<open>socket.join(r)\<close> adds a
  pair, \<open>socket.leave(r)\<close> removes it, a socket is in the room named by its own id from
  its connection on, and it has left every room when its \<open>disconnect\<close> listener runs.
  \<open>io.to(r).emit\<close> reaches every socket in \<open>r\<close>, \<open>socket.to(r).emit\<close> every socket
  in \<open>r\<close> but \<open>socket\<close> itself. \<open>connectedSockets\<close> are the keys of the handler's own
  map.
\<close>

record SignalingHandler =
  roomManager :: RoomManager
  connectedSockets :: "string list"
  adapterRooms :: "(string \<times> string) list"

definition newSignalingHandler :: SignalingHandler where
  "newSignalingHandler =
     \<lparr>roomManager = newRoomManager, connectedSockets = [], adapterRooms = []\<rparr>"

definition socketJoin :: "string \<Rightarrow> string \<Rightarrow> (string \<times> string) list \<Rightarrow> (string \<times> string) list" where
  "socketJoin socketId r a = (if (socketId, r) \<in> set a then a else a @ [(socketId, r)])"

definition socketLeave :: "string \<Rightarrow> string \<Rightarrow> (string \<times> string) list \<Rightarrow> (string \<times> string) list" where
  "socketLeave socketId r a = removeAll (socketId, r) a"

definition socketsIn :: "string \<Rightarrow> (string \<times> string) list \<Rightarrow> string list" where
  "socketsIn r a = map fst (filter (\<lambda>(socketId, r'). r' = r) a)"

text \<open>
  The messages the handler emits. A payload keeps the fields of the source in their
  order; the bodies of WebRTC and control messages are opaque.
\<close>

datatype Event =
    RoomCreated string string string nat int
  | RoomJoined string string string "User list" int "User option"
  | JoinError string
  | UserJoined string "User option" "User list"
  | UserLeft string "User list"
  | UserDisconnected string "User list"
  | UrlChanged string string
  | Control string
  | Webrtc string string
  | ErrorMessage string

definition ioTo :: "string \<Rightarrow> (string \<times> string) list \<Rightarrow> Event \<Rightarrow> (string \<times> Event) list" where
  "ioTo r a ev = map (\<lambda>t. (t, ev)) (socketsIn r a)"

definition socketTo ::
  "string \<Rightarrow> string \<Rightarrow> (string \<times> string) list \<Rightarrow> Event \<Rightarrow> (string \<times> Event) list" where
  "socketTo socketId r a ev = map (\<lambda>t. (t, ev)) (filter (\<lambda>t. t \<noteq> socketId) (socketsIn r a))"

text \<open>
  The handlers. Each takes the id of the socket the message came in on and returns the
  new state with the list of (receiving socket, message) it emitted. None of the calls
  inside a \<open>try\<close> throws in this model, so no \<open>catch\<close> branch is taken.
\<close>

definition handleCreateRoom ::
  "string \<Rightarrow> time \<Rightarrow> string \<Rightarrow> string \<Rightarrow> string option \<Rightarrow> int option \<Rightarrow> SignalingHandler
     \<Rightarrow> SignalingHandler \<times> (string \<times> Event) list" where
  "handleCreateRoom socketId now roomId name pw maxU h =
     (case createRoom now roomId name pw maxU (roomManager h) of
        (room, rm) \<Rightarrow>
          (h\<lparr>roomManager := rm,
             adapterRooms := socketJoin socketId (id_r room) (adapterRooms h)\<rparr>,
           [(socketId, RoomCreated (id_r room) (name_r room) (currentUrl room)
                         (length (users room)) (maxUsers room))]))"

definition handleJoinRoom ::
  "string \<Rightarrow> time \<Rightarrow> string \<Rightarrow> string \<Rightarrow> string option \<Rightarrow> SignalingHandler
     \<Rightarrow> SignalingHandler \<times> (string \<times> Event) list" where
  "handleJoinRoom socketId now roomId userName pw h =
     (case joinRoom now roomId socketId userName pw (roomManager h) of
        (Inr room, rm) \<Rightarrow>
          (let a = socketJoin socketId (id_r room) (adapterRooms h);
               user = map_of (users room) socketId;
               us = getRoomUsers (id_r room) rm
           in (h\<lparr>roomManager := rm, adapterRooms := a\<rparr>,
               (socketId, RoomJoined (id_r room) (name_r room) (currentUrl room) us
                            (maxUsers room) user)
               # socketTo socketId (id_r room) a (UserJoined socketId user us)))
      | (Inl e, rm) \<Rightarrow> (h\<lparr>roomManager := rm\<rparr>, [(socketId, JoinError e)]))"

definition handleLeaveRoom ::
  "string \<Rightarrow> time \<Rightarrow> SignalingHandler \<Rightarrow> SignalingHandler \<times> (string \<times> Event) list" where
  "handleLeaveRoom socketId now h =
     (case getUserRoom socketId (roomManager h) of
        None \<Rightarrow> (h, [])
      | Some room \<Rightarrow>
          (let rm = snd (leaveRoom now socketId (roomManager h));
               a = socketLeave socketId (id_r room) (adapterRooms h)
           in (h\<lparr>roomManager := rm, adapterRooms := a\<rparr>,
               socketTo socketId (id_r room) a
                 (UserLeft socketId (getRoomUsers (id_r room) rm)))))"

text \<open>The three WebRTC handlers differ in the event name only, which is \<open>kind\<close> here.\<close>

definition handleWebRTC ::
  "string \<Rightarrow> string option \<Rightarrow> string \<Rightarrow> SignalingHandler \<Rightarrow> (string \<times> Event) list" where
  "handleWebRTC kind target body h =
     (case target of
        None \<Rightarrow> []
      | Some t \<Rightarrow> if t \<in> set (connectedSockets h) then [(t, Webrtc kind body)] else [])"

definition handleControlMessage :: "string \<Rightarrow> string \<Rightarrow> SignalingHandler \<Rightarrow> (string \<times> Event) list" where
  "handleControlMessage socketId body h =
     (case getUserRoom socketId (roomManager h) of
        None \<Rightarrow> []
      | Some room \<Rightarrow> socketTo socketId (id_r room) (adapterRooms h) (Control body))"

definition handleUrlChange ::
  "string \<Rightarrow> time \<Rightarrow> string \<Rightarrow> SignalingHandler \<Rightarrow> SignalingHandler \<times> (string \<times> Event) list" where
  "handleUrlChange socketId now url h =
     (case getUserRoom socketId (roomManager h) of
        None \<Rightarrow> (h, [])
      | Some room \<Rightarrow>
          (h\<lparr>roomManager := snd (updateRoomUrl now (id_r room) url (roomManager h))\<rparr>,
           ioTo (id_r room) (adapterRooms h) (UrlChanged url socketId)))"

definition handleDisconnect ::
  "string \<Rightarrow> time \<Rightarrow> SignalingHandler \<Rightarrow> SignalingHandler \<times> (string \<times> Event) list" where
  "handleDisconnect socketId now h =
     (let rm = snd (leaveRoom now socketId (roomManager h))
      in (case getUserRoom socketId rm of
            None \<Rightarrow> (h\<lparr>roomManager := rm\<rparr>, [])
          | Some room \<Rightarrow>
              (h\<lparr>roomManager := rm\<rparr>,
               socketTo socketId (id_r room) (adapterRooms h)
                 (UserDisconnected socketId (getRoomUsers (id_r room) rm)))))"

text \<open>
  The \<open>disconnect\<close> listener: socket.io has taken the socket out of its rooms, the
  listener calls \<open>handleDisconnect\<close> and then deletes the socket from \<open>connectedSockets\<close>.
\<close>

definition onDisconnect ::
  "string \<Rightarrow> time \<Rightarrow> SignalingHandler \<Rightarrow> SignalingHandler \<times> (string \<times> Event) list" where
  "onDisconnect socketId now h =
     (case handleDisconnect socketId now
             (h\<lparr>adapterRooms := filter (\<lambda>(t, r). t \<noteq> socketId) (adapterRooms h)\<rparr>) of
        (h', out) \<Rightarrow>
          (h'\<lparr>connectedSockets := removeAll socketId (connectedSockets h')\<rparr>, out))"

definition onConnect :: "string \<Rightarrow> SignalingHandler \<Rightarrow> SignalingHandler" where
  "onConnect socketId h =
     h\<lparr>connectedSockets := connectedSockets h @ [socketId],
       adapterRooms := socketJoin socketId socketId (adapterRooms h)\<rparr>"

text \<open>One beat of \<open>startHeartbeat\<close>, and the timers of the room manager when they are due.\<close>

definition heartbeat :: "time \<Rightarrow> SignalingHandler \<Rightarrow> SignalingHandler" where
  "heartbeat now h =
     h\<lparr>roomManager :=
         cleanup now (fold (updateUserActivity now) (connectedSockets h) (roomManager h))\<rparr>"

text \<open>
  What reaches the handler. socket.io draws the id of a new socket at random, so an id
  is never handed out twice: a \<open>Connect\<close> with an id that is connected or that the store
  still records is not an input the handler can see and does nothing here, and so does a
  message on a socket that is not connected. The handlers of the \<open>/browser-webrtc\<close>
  namespace only forward to the browser service; they touch none of this state and are
  left out.
\<close>

definition knownSocket :: "string \<Rightarrow> SignalingHandler \<Rightarrow> bool" where
  "knownSocket socketId h =
     (socketId \<in> set (connectedSockets h) \<or>
      map_of (userToRoom (roomManager h)) socketId \<noteq> None \<or>
      list_ex (\<lambda>(k, room). map_of (users room) socketId \<noteq> None) (rooms (roomManager h)))"

datatype Input =
    Connect string
  | CreateRoomMsg string time string string "string option" "int option"
  | JoinRoomMsg string time string string "string option"
  | LeaveRoomMsg string time
  | UrlChangeMsg string time string
  | ControlMsg string string
  | WebrtcMsg string string "string option" string
  | Disconnect string time
  | Heartbeat time
  | TimersDue time

fun onInput :: "Input \<Rightarrow> SignalingHandler \<Rightarrow> SignalingHandler \<times> (string \<times> Event) list" where
  "onInput (Connect socketId) h = (onConnect socketId h, [])"
| "onInput (CreateRoomMsg socketId now roomId name pw maxU) h =
     handleCreateRoom socketId now roomId name pw maxU h"
| "onInput (JoinRoomMsg socketId now roomId userName pw) h =
     handleJoinRoom socketId now roomId userName pw h"
| "onInput (LeaveRoomMsg socketId now) h = handleLeaveRoom socketId now h"
| "onInput (UrlChangeMsg socketId now url) h = handleUrlChange socketId now url h"
| "onInput (ControlMsg socketId body) h = (h, handleControlMessage socketId body h)"
| "onInput (WebrtcMsg socketId kind target body) h = (h, handleWebRTC kind target body h)"
| "onInput (Disconnect socketId now) h = onDisconnect socketId now h"
| "onInput (Heartbeat now) h = (heartbeat now h, [])"
| "onInput (TimersDue now) h = (h\<lparr>roomManager := runTimers now (roomManager h)\<rparr>, [])"

fun sender :: "Input \<Rightarrow> string option" where
  "sender (Connect socketId) = None"
| "sender (CreateRoomMsg socketId now roomId name pw maxU) = Some socketId"
| "sender (JoinRoomMsg socketId now roomId userName pw) = Some socketId"
| "sender (LeaveRoomMsg socketId now) = Some socketId"
| "sender (UrlChangeMsg socketId now url) = Some socketId"
| "sender (ControlMsg socketId body) = Some socketId"
| "sender (WebrtcMsg socketId kind target body) = Some socketId"
| "sender (Disconnect socketId now) = Some socketId"
| "sender (Heartbeat now) = None"
| "sender (TimersDue now) = None"

definition accepted :: "Input \<Rightarrow> SignalingHandler \<Rightarrow> bool" where
  "accepted i h =
     (case i of
        Connect socketId \<Rightarrow> \<not> knownSocket socketId h
      | _ \<Rightarrow> (case sender i of None \<Rightarrow> True | Some socketId \<Rightarrow> socketId \<in> set (connectedSockets h)))"

definition relayStep :: "Input \<Rightarrow> SignalingHandler \<Rightarrow> SignalingHandler \<times> (string \<times> Event) list" where
  "relayStep i h = (if accepted i h then onInput i h else (h, []))"

definition relayRun :: "Input list \<Rightarrow> SignalingHandler" where
  "relayRun ins = fold (\<lambda>i h. fst (relayStep i h)) ins newSignalingHandler"

text \<open>
  What holds of the relay in every state it reaches: a room is stored under its own id,
  room ids are not repeated in the map, and a connected socket is in the socket.io room
  of the room that the reverse index names for it and of every room whose \<open>users\<close> hold it.
\<close>

definition usersOf :: "string \<Rightarrow> RoomManager \<Rightarrow> string set" where
  "usersOf k rm = (case map_of (rooms rm) k of None \<Rightarrow> {} | Some room \<Rightarrow> fst ` set (users room))"

definition storedUnderId :: "RoomManager \<Rightarrow> bool" where
  "storedUnderId rm = (\<forall>k room. map_of (rooms rm) k = Some room \<longrightarrow> id_r room = k)"

definition relayInv :: "SignalingHandler \<Rightarrow> bool" where
  "relayInv h =
     (storedUnderId (roomManager h) \<and>
      distinct (map fst (rooms (roomManager h))) \<and>
      (\<forall>t k. t \<in> set (connectedSockets h) \<and> map_of (userToRoom (roomManager h)) t = Some k
         \<longrightarrow> (t, k) \<in> set (adapterRooms h)) \<and>
      (\<forall>t k. t \<in> set (connectedSockets h) \<and> t \<in> usersOf k (roomManager h)
         \<longrightarrow> (t, k) \<in> set (adapterRooms h)))"

text \<open>
  A later store \<open>s'\<close> has no more than an earlier one \<open>s\<close>: each of its rooms is a
  room of \<open>s\<close> under the same key, with the same id and no new user, and each entry of its
  reverse index is one of \<open>s\<close>.
\<close>

definition shrinks :: "RoomManager \<Rightarrow> RoomManager \<Rightarrow> bool" where
  "shrinks s s' =
     ((\<forall>k room'. map_of (rooms s') k = Some room' \<longrightarrow>
         (\<exists>room. map_of (rooms s) k = Some room \<and> id_r room' = id_r room \<and>
                 fst ` set (users room') \<subseteq> fst ` set (users room))) \<and>
      (\<forall>u k. map_of (userToRoom s') u = Some k \<longrightarrow> map_of (userToRoom s) u = Some k) \<and>
      (distinct (map fst (rooms s)) \<longrightarrow> distinct (map fst (rooms s'))))"

section \<open>BrowserService (the browser service's index.ts)\<close>



text \<open>
  The fields of the class. \<open>browser\<close> and \<open>page\<close> say whether the field holds an object
  (is not \<open>null\<close>); \<open>browserType\<close> is declared with three values and assigned a fourth,
  \<open>'http'\<close>. \<open>streamingClients\<close> maps a client id to its peer connection.
  \<open>setInterval\<close> callbacks that are running are listed in \<open>intervals\<close>, each under its
  timer handle with the client id it closes over; \<open>streamingInterval\<close> is the one handle
  the field of that name holds. \<open>ioSockets\<close> are the ids in \<open>this.io.sockets.sockets\<close>.
\<close>

datatype BrowserType = Playwright | Puppeteer | Http | Mock

record BrowserService =
  browser :: bool
  page :: bool
  browserType :: BrowserType
  currentUrl_b :: string
  isInitialized :: bool
  streamingClients :: "(string \<times> unit) list"
  streamingInterval :: "nat option"
  intervals :: "(nat \<times> string) list"
  nextHandle :: nat
  ioSockets :: "string list"





subsection \<open>The /screenshot route\<close>










subsection \<open>Streaming\<close>

definition startStreaming :: "string \<Rightarrow> BrowserService \<Rightarrow> BrowserService" where
  "startStreaming clientId st =
     (if \<not> page st \<or> \<not> isInitialized st then st
      else if map_of (streamingClients st) clientId = None then st
      else st\<lparr>intervals := intervals st @ [(nextHandle st, clientId)],
              streamingInterval := Some (nextHandle st),
              nextHandle := Suc (nextHandle st)\<rparr>)"

text \<open>
  Messages the service emits on a socket, and how far the handler of \<open>webrtc-offer\<close> gets:
  \<open>new RTCPeerConnection\<close> throws, a later call up to \<open>setLocalDescription\<close> throws (the
  peer connection is already stored), or the answer is sent.
\<close>

datatype Emitted =
    WebrtcAnswer string
  | OfferError string string
  | BrowserFrame string int

datatype Negotiation = ConstructorThrows | DescriptionThrows | Negotiated

definition onWebrtcOffer ::
  "string \<Rightarrow> string \<Rightarrow> Negotiation \<Rightarrow> BrowserService
     \<Rightarrow> BrowserService \<times> (string \<times> Emitted) list" where
  "onWebrtcOffer socketId clientId neg st =
     (case neg of
        ConstructorThrows \<Rightarrow>
          (st, [(socketId, OfferError ''Failed to process WebRTC offer'' clientId)])
      | DescriptionThrows \<Rightarrow>
          (st\<lparr>streamingClients := AList.update clientId () (streamingClients st)\<rparr>,
           [(socketId, OfferError ''Failed to process WebRTC offer'' clientId)])
      | Negotiated \<Rightarrow>
          (startStreaming clientId
             (st\<lparr>streamingClients := AList.update clientId () (streamingClients st)\<rparr>),
           [(socketId, WebrtcAnswer clientId)]))"

definition onClientDisconnected :: "string \<Rightarrow> BrowserService \<Rightarrow> BrowserService" where
  "onClientDisconnected clientId st =
     (case map_of (streamingClients st) clientId of
        None \<Rightarrow> st
      | Some pc \<Rightarrow> st\<lparr>streamingClients := AList.delete clientId (streamingClients st)\<rparr>)"

definition onSocketDisconnect :: "string \<Rightarrow> BrowserService \<Rightarrow> BrowserService" where
  "onSocketDisconnect socketId st =
     st\<lparr>streamingClients := [], ioSockets := removeAll socketId (ioSockets st)\<rparr>"

definition onConnection :: "string \<Rightarrow> BrowserService \<Rightarrow> BrowserService" where
  "onConnection socketId st = st\<lparr>ioSockets := ioSockets st @ [socketId]\<rparr>"

text \<open>
  One run of the callback of the interval \<open>handle\<close>, with the outcome of
  \<open>page.screenshot\<close> (\<open>None\<close>: it throws) and the value of \<open>Date.now()\<close>. The frame
  carries the screenshot; its base64 encoding is not modelled.
\<close>

definition intervalTick ::
  "nat \<Rightarrow> string option \<Rightarrow> int \<Rightarrow> BrowserService \<Rightarrow> (string \<times> Emitted) list" where
  "intervalTick handle shot now st =
     (case map_of (intervals st) handle of
        None \<Rightarrow> []
      | Some clientId \<Rightarrow>
          if \<not> page st \<or> \<not> isInitialized st then []
          else
            (case shot of
               None \<Rightarrow> []
             | Some png \<Rightarrow>
                 if clientId \<in> set (ioSockets st) then [(clientId, BrowserFrame png now)]
                 else []))"

definition stop :: "BrowserService \<Rightarrow> BrowserService" where
  "stop st =
     st\<lparr>intervals := (case streamingInterval st of
                         None \<Rightarrow> intervals st
                       | Some h \<Rightarrow> AList.delete h (intervals st)),
        streamingInterval := None, streamingClients := [], page := False, browser := False,
        isInitialized := False, browserType := Mock\<rparr>"

text \<open>
  The socket events of the service that touch the streaming state, and one step of
  them. The handlers of ICE candidates and of the navigation commands read and write
  none of the fields above but \<open>page\<close> and \<open>currentUrl\<close>, and are left out.
\<close>

datatype BrowserInput =
    Connection string
  | WebrtcOffer string string Negotiation
  | ClientDisconnected string
  | SocketDisconnect string

fun browserStep :: "BrowserInput \<Rightarrow> BrowserService \<Rightarrow> BrowserService" where
  "browserStep (Connection socketId) st = onConnection socketId st"
| "browserStep (WebrtcOffer socketId clientId neg) st = fst (onWebrtcOffer socketId clientId neg st)"
| "browserStep (ClientDisconnected clientId) st = onClientDisconnected clientId st"
| "browserStep (SocketDisconnect socketId) st = onSocketDisconnect socketId st"

section \<open>Auxiliary facts about the store\<close>

lemmas store_defs =
  run_def newRoomManager_def createRoom_def joinRoom_def leaveRoom_def updateHost_def
  deleteEmptyRoom_def getRoom_def getUserRoom_def getRoomUsers_def updateRoomUrl_def
  updateUserActivity_def cleanup_def cleanupRoom_def inactive_def inactivityTimeout_def
  gracePeriod_def runTimers_def truthy_def hosts_def Let_def

lemma set_update_subset: "set (AList.update k v al) \<subseteq> insert (k, v) (set al)"
  by (induction al) auto

lemma set_delete_subset: "set (AList.delete k al) \<subseteq> set al"
  by (auto simp: AList.delete_eq)

lemma map_of_in_keys: "map_of al k = Some v \<Longrightarrow> k \<in> set (map fst al)"
  by (force dest: map_of_SomeD)

lemma allRooms_update:
  "allRooms P s \<Longrightarrow> P room \<Longrightarrow> allRooms P (s\<lparr>rooms := AList.update k room (rooms s)\<rparr>)"
  using set_update_subset [of k room "rooms s"] by (auto simp: allRooms_def)

lemma allRooms_delete:
  "allRooms P s \<Longrightarrow> allRooms P (s\<lparr>rooms := AList.delete k (rooms s)\<rparr>)"
  using set_delete_subset [of k "rooms s"] by (auto simp: allRooms_def)

lemma allRooms_lookup: "allRooms P s \<Longrightarrow> map_of (rooms s) k = Some room \<Longrightarrow> P room"
  by (metis allRooms_def map_of_SomeD snd_conv)

lemma allRooms_other [simp]:
  "allRooms P (s\<lparr>userToRoom := u\<rparr>) = allRooms P s"
  "allRooms P (s\<lparr>timers := t\<rparr>) = allRooms P s"
  by (simp_all add: allRooms_def)

lemma allRooms_deleteEmptyRoom: "allRooms P s \<Longrightarrow> allRooms P (deleteEmptyRoom rid s)"
  by (auto simp: deleteEmptyRoom_def allRooms_delete split: option.splits)

lemma allRooms_fold_deleteEmptyRoom:
  "allRooms P s \<Longrightarrow> allRooms P (fold (\<lambda>(due, rid). deleteEmptyRoom rid) ts s)"
  by (induction ts arbitrary: s) (auto simp: allRooms_deleteEmptyRoom)

lemma allRooms_runTimers: "allRooms P s \<Longrightarrow> allRooms P (runTimers now s)"
  by (simp add: runTimers_def allRooms_fold_deleteEmptyRoom)

lemma allRooms_cleanupRoom:
  assumes "allRooms P s" and "P (snd e)"
    and del: "\<And>room Q. P room \<Longrightarrow> P (room\<lparr>users := filter Q (users room)\<rparr>)"
  shows "allRooms P (cleanupRoom now e s)"
  using assms(1,2)
  by (auto simp: cleanupRoom_def Let_def intro!: allRooms_update allRooms_delete del
           simp del: allRooms_other) (simp_all add: allRooms_delete allRooms_update del)

lemma allRooms_fold_cleanupRoom:
  assumes del: "\<And>room Q. P room \<Longrightarrow> P (room\<lparr>users := filter Q (users room)\<rparr>)"
  shows "allRooms P s \<Longrightarrow> \<forall>e \<in> set es. P (snd e) \<Longrightarrow> allRooms P (fold (cleanupRoom now) es s)"
proof (induction es arbitrary: s)
  case Nil
  then show ?case by simp
next
  case (Cons e es)
  have "allRooms P (cleanupRoom now e s)"
    using Cons.prems by (intro allRooms_cleanupRoom del) auto
  then show ?case using Cons by simp
qed

lemma allRooms_cleanup:
  assumes del: "\<And>room Q. P room \<Longrightarrow> P (room\<lparr>users := filter Q (users room)\<rparr>)"
  shows "allRooms P s \<Longrightarrow> allRooms P (cleanup now s)"
  unfolding cleanup_def
  using allRooms_fold_cleanupRoom [where P = P and s = s and es = "rooms s" and now = now] del
  by (auto simp: allRooms_def)

lemma allRooms_exec:
  assumes new: "\<And>room. users room = [] \<Longrightarrow> P room"
    and join: "\<And>room uid user now. P room \<Longrightarrow> \<not> maxUsers room \<le> int (length (users room)) \<Longrightarrow>
                 map_of (users room) uid = None \<Longrightarrow> isHost user = (length (users room) = 0) \<Longrightarrow>
                 P (room\<lparr>users := AList.update uid user (users room), lastActivity_r := now\<rparr>)"
    and del: "\<And>room Q. P room \<Longrightarrow> P (room\<lparr>users := filter Q (users room)\<rparr>)"
    and host: "\<And>room. P room \<Longrightarrow> P (room\<lparr>users := updateHost (users room)\<rparr>)"
    and url: "\<And>room url now. P room \<Longrightarrow> P (room\<lparr>currentUrl := url, lastActivity_r := now\<rparr>)"
    and act: "\<And>room uid user now. P room \<Longrightarrow> map_of (users room) uid = Some user \<Longrightarrow>
                 P (room\<lparr>users := AList.update uid (user\<lparr>lastActivity_u := now\<rparr>) (users room),
                         lastActivity_r := now\<rparr>)"
    and touch: "\<And>room now. P room \<Longrightarrow> P (room\<lparr>lastActivity_r := now\<rparr>)"
    and inv: "allRooms P s"
  shows "allRooms P (exec op s)"
proof (cases op)
  case (CreateRoom now roomId name pw maxU)
  then show ?thesis using inv by (auto simp: createRoom_def Let_def intro!: allRooms_update new)
next
  case (JoinRoom now roomId userId userName pw)
  show ?thesis
  proof (cases "map_of (rooms s) roomId")
    case None
    then show ?thesis using inv JoinRoom by (simp add: joinRoom_def)
  next
    case (Some room)
    then have "P room" using inv by (rule allRooms_lookup [rotated])
    then show ?thesis using inv JoinRoom Some
      by (auto simp: joinRoom_def Let_def intro!: allRooms_update join)
  qed
next
  case (LeaveRoom now userId)
  have d: "P (room\<lparr>users := AList.delete userId (users room)\<rparr>)" if "P room" for room
    using del [OF that, of "\<lambda>(k', _). userId \<noteq> k'"] by (simp add: AList.delete_eq)
  have h: "P (room\<lparr>users := updateHost (AList.delete userId (users room))\<rparr>)" if "P room" for room
    using host [OF d [OF that]] by simp
  have e: "P (room\<lparr>users := []\<rparr>)" if "P room" "AList.delete userId (users room) = []" for room
    using d [OF that(1)] that(2) by simp
  show ?thesis using inv LeaveRoom
    by (auto simp: leaveRoom_def Let_def split: option.splits
             intro!: allRooms_update e h dest: allRooms_lookup)
next
  case (UpdateRoomUrl now roomId url')
  then show ?thesis using inv
    by (auto simp: updateRoomUrl_def split: option.splits intro!: allRooms_update url
             dest: allRooms_lookup)
next
  case (UpdateUserActivity now userId)
  have a: "P (room\<lparr>users := AList.update userId (user\<lparr>lastActivity_u := now\<rparr>) (users room)\<rparr>
                 \<lparr>lastActivity_r := now\<rparr>)"
    if "P room" "map_of (users room) userId = Some user" for room user
    using act [OF that, of now] by simp
  show ?thesis
  proof (cases "getUserRoom userId s")
    case None
    then show ?thesis using inv UpdateUserActivity
      by (auto simp: updateUserActivity_def getUserRoom_def split: option.splits if_splits)
  next
    case (Some room)
    then have pr: "P room" using inv
      by (auto simp: getUserRoom_def split: option.splits if_splits dest: allRooms_lookup)
    show ?thesis
    proof (cases "map_of (users room) userId")
      case None
      then show ?thesis using inv UpdateUserActivity Some touch [OF pr, of now]
        by (auto simp: updateUserActivity_def getUserRoom_def Let_def allRooms_update
                 split: option.splits if_splits)
    next
      case (Some user)
      then show ?thesis using inv UpdateUserActivity \<open>getUserRoom userId s = Some room\<close>
          a [OF pr Some]
        by (auto simp: updateUserActivity_def getUserRoom_def Let_def allRooms_update
                 split: option.splits if_splits)
    qed
  qed
next
  case (Cleanup now)
  then show ?thesis using inv by (simp add: allRooms_cleanup del)
next
  case (RunTimers now)
  then show ?thesis using inv by (simp add: allRooms_runTimers)
qed

lemma allRooms_fold_exec:
  assumes step: "\<And>op s. allRooms P s \<Longrightarrow> allRooms P (exec op s)"
  shows "allRooms P s \<Longrightarrow> allRooms P (fold exec ops s)"
  by (induction ops arbitrary: s) (auto intro: step)

lemma update_new_key: "map_of al k = None \<Longrightarrow> AList.update k v al = al @ [(k, v)]"
  by (induction al) (auto split: if_splits)

lemma length_update_le: "length (AList.update k v al) \<le> Suc (length al)"
  by (induction al) auto

lemma length_update_present: "map_of al k = Some v \<Longrightarrow> length (AList.update k v' al) = length al"
  by (induction al) (auto split: if_splits)

lemma length_updateHost: "length (updateHost us) = length us"
  by (auto simp: updateHost_def split: list.splits)

lemma int_length_filter_le: "int (length xs) \<le> m \<Longrightarrow> int (length (filter Q xs)) \<le> m"
  by (rule order_trans [of _ "int (length xs)"]) simp_all

lemma withinCapacity_exec: "allRooms withinCapacity s \<Longrightarrow> allRooms withinCapacity (exec op s)"
proof (rule allRooms_exec)
  fix room :: Room and Q
  assume "withinCapacity room"
  then show "withinCapacity (room\<lparr>users := filter Q (users room)\<rparr>)"
    by (auto simp: withinCapacity_def intro: int_length_filter_le)
next
  fix room :: Room and uid and user :: User and now :: int
  assume "withinCapacity room" "\<not> maxUsers room \<le> int (length (users room))"
  then show "withinCapacity (room\<lparr>users := AList.update uid user (users room), lastActivity_r := now\<rparr>)"
    using length_update_le [of uid user "users room"] by (auto simp: withinCapacity_def)
qed (auto simp: withinCapacity_def length_updateHost length_update_present)

lemma withinCapacity_run: "allRooms withinCapacity (run ops)"
  unfolding run_def
  by (rule allRooms_fold_exec, rule withinCapacity_exec, assumption)
     (simp add: allRooms_def newRoomManager_def)

lemma hosts_updateHost: "length (filter (\<lambda>(k, u). isHost u) us) \<le> Suc 0 \<Longrightarrow>
   length (filter (\<lambda>(k, u). isHost u) (updateHost us)) \<le> Suc 0"
  by (auto simp: updateHost_def list_ex_iff filter_empty_conv split: list.splits)

lemma hosts_update_activity:
  "map_of us k = Some u \<Longrightarrow>
   length (filter (\<lambda>(k, u). isHost u) (AList.update k (u\<lparr>lastActivity_u := t\<rparr>) us))
     = length (filter (\<lambda>(k, u). isHost u) us)"
  by (induction us) (auto split: if_splits)

lemma length_filter_filter_le: "length (filter P (filter Q xs)) \<le> length (filter P xs)"
  by (induction xs) auto

lemma atMostOneHost_exec: "allRooms atMostOneHost s \<Longrightarrow> allRooms atMostOneHost (exec op s)"
proof (rule allRooms_exec)
  fix room :: Room and Q
  assume "atMostOneHost room"
  moreover have "length (filter (\<lambda>(k, u). isHost u) (filter Q (users room)))
      \<le> length (filter (\<lambda>(k, u). isHost u) (users room))"
    by (rule length_filter_filter_le)
  ultimately show "atMostOneHost (room\<lparr>users := filter Q (users room)\<rparr>)"
    by (auto simp: atMostOneHost_def hosts_def)
next
  fix room :: Room and uid and user :: User and now :: int
  assume "atMostOneHost room" "map_of (users room) uid = None"
    "isHost user = (length (users room) = 0)"
  then show "atMostOneHost (room\<lparr>users := AList.update uid user (users room), lastActivity_r := now\<rparr>)"
    by (auto simp: atMostOneHost_def hosts_def update_new_key)
qed (auto simp: atMostOneHost_def hosts_def hosts_updateHost hosts_update_activity)

lemma atMostOneHost_run: "allRooms atMostOneHost (run ops)"
  unfolding run_def
  by (rule allRooms_fold_exec, rule atMostOneHost_exec, assumption)
     (simp add: allRooms_def newRoomManager_def)







lemma deleteEmptyRoom_timers: "timers (deleteEmptyRoom rid s) = timers s"
  by (auto simp: deleteEmptyRoom_def split: option.splits)

lemma fold_deleteEmptyRoom_timers:
  "timers (fold (\<lambda>(due, rid). deleteEmptyRoom rid) ts s) = timers s"
  by (induction ts arbitrary: s) (auto simp: deleteEmptyRoom_timers)





section \<open>What the relay keeps true\<close>

lemma shrinks_refl: "shrinks s s"
  by (simp add: shrinks_def)

lemma shrinks_trans:
  assumes a: "shrinks s s'" and b: "shrinks s' s''"
  shows "shrinks s s''"
  unfolding shrinks_def
proof (intro conjI allI impI)
  fix k room'
  assume "map_of (rooms s'') k = Some room'"
  then obtain r1 where r1: "map_of (rooms s') k = Some r1" "id_r room' = id_r r1"
      "fst ` set (users room') \<subseteq> fst ` set (users r1)"
    using b unfolding shrinks_def by blast
  then obtain r0 where r0: "map_of (rooms s) k = Some r0" "id_r r1 = id_r r0"
      "fst ` set (users r1) \<subseteq> fst ` set (users r0)"
    using a unfolding shrinks_def by blast
  show "\<exists>room. map_of (rooms s) k = Some room \<and> id_r room' = id_r room \<and>
          fst ` set (users room') \<subseteq> fst ` set (users room)"
    using r0 r1 by (intro exI [of _ r0]) auto
next
  fix u k
  assume "map_of (userToRoom s'') u = Some k"
  then show "map_of (userToRoom s) u = Some k"
    using a b unfolding shrinks_def by blast
next
  assume "distinct (map fst (rooms s))"
  then show "distinct (map fst (rooms s''))"
    using a b unfolding shrinks_def by blast
qed

lemma getUserRoom_after_leaveRoom: "getUserRoom u (snd (leaveRoom now u s)) = None"
  by (auto simp: getUserRoom_def leaveRoom_def Let_def delete_conv' split: option.splits)

lemma onDisconnect_emits_nothing: "snd (onDisconnect socketId now h) = []"
  by (simp add: onDisconnect_def handleDisconnect_def Let_def getUserRoom_after_leaveRoom
        split: prod.splits)

lemma map_fst_updateHost: "map fst (updateHost us) = map fst us"
  by (cases us) (auto simp: updateHost_def)

lemma keys_updateHost: "fst ` set (updateHost us) = fst ` set us"
  using map_fst_updateHost [of us] by (metis set_map)

lemma keys_delete: "fst ` set (AList.delete k al) = fst ` set al - {k}"
  by (induction al) auto

lemma shrinks_leaveRoom: "shrinks s (snd (leaveRoom now u s))"
  by (auto simp: shrinks_def leaveRoom_def Let_def update_conv' delete_conv' keys_updateHost
        keys_delete distinct_update split: option.splits if_splits)

lemma shrinks_updateRoomUrl: "shrinks s (snd (updateRoomUrl now k url s))"
  by (auto simp: shrinks_def updateRoomUrl_def update_conv' distinct_update
        split: option.splits if_splits)

lemma map_of_Some_key: "map_of al k = Some v \<Longrightarrow> k \<in> fst ` set al"
  by (force dest: map_of_SomeD)

lemma shrinks_updateUserActivity: "shrinks s (updateUserActivity now u s)"
  by (auto simp: shrinks_def updateUserActivity_def Let_def update_conv' distinct_update
        dom_update map_of_Some_key split: option.splits if_splits)

lemma shrinks_deleteEmptyRoom: "shrinks s (deleteEmptyRoom k s)"
  by (auto simp: shrinks_def deleteEmptyRoom_def delete_conv' distinct_delete
        split: option.splits if_splits)

lemma shrinks_runTimers: "shrinks s (runTimers now s)"
proof -
  have "shrinks s0 (fold (\<lambda>(due, roomId). deleteEmptyRoom roomId) ts s0)" for ts s0
  proof (induction ts arbitrary: s0)
    case Nil
    show ?case by (simp add: shrinks_refl)
  next
    case (Cons t ts)
    show ?case
      using shrinks_trans [OF shrinks_deleteEmptyRoom Cons.IH] by (simp add: split_def)
  qed
  moreover have "shrinks s (s\<lparr>timers := x\<rparr>)" for x
    by (simp add: shrinks_def)
  ultimately show ?thesis
    unfolding runTimers_def by (blast intro: shrinks_trans)
qed

lemma fold_updateUserActivity: "shrinks s (fold (updateUserActivity now) us s)"
proof (induction us arbitrary: s)
  case Nil
  show ?case by (simp add: shrinks_refl)
next
  case (Cons u us)
  show ?case using shrinks_trans [OF shrinks_updateUserActivity Cons.IH] by simp
qed

lemma fold_delete_index:
  "map_of (fold (\<lambda>(k, u) m. AList.delete k m) gone m0) t = Some r \<Longrightarrow> map_of m0 t = Some r"
proof (induction gone arbitrary: m0)
  case Nil
  then show ?case by simp
next
  case (Cons g gone)
  then have "map_of (AList.delete (fst g) m0) t = Some r"
    by (simp add: split_def)
  then show ?case
    by (cases "t = fst g") (simp_all add: delete_conv')
qed

lemma keys_filter: "fst ` set (filter P al) \<subseteq> fst ` set al"
  by auto

lemma shrinks_cleanupRoom:
  assumes "map_of (rooms s) (fst e) = Some (snd e)"
  shows "shrinks s (cleanupRoom now e s)"
  unfolding shrinks_def
proof (intro conjI allI impI)
  fix k room'
  assume "map_of (rooms (cleanupRoom now e s)) k = Some room'"
  then show "\<exists>room. map_of (rooms s) k = Some room \<and> id_r room' = id_r room \<and>
          fst ` set (users room') \<subseteq> fst ` set (users room)"
    using assms
    by (cases "k = fst e")
       (auto simp: cleanupRoom_def Let_def update_conv' delete_conv' split: if_splits)
next
  fix u k
  assume "map_of (userToRoom (cleanupRoom now e s)) u = Some k"
  then show "map_of (userToRoom s) u = Some k"
    by (auto simp: cleanupRoom_def Let_def split: if_splits dest: fold_delete_index)
next
  assume "distinct (map fst (rooms s))"
  then show "distinct (map fst (rooms (cleanupRoom now e s)))"
    by (simp add: cleanupRoom_def Let_def distinct_update distinct_delete)
qed

lemma cleanupRoom_other:
  "k \<noteq> fst e \<Longrightarrow> map_of (rooms (cleanupRoom now e s)) k = map_of (rooms s) k"
  by (simp add: cleanupRoom_def Let_def update_conv' delete_conv')

lemma shrinks_fold_cleanupRoom:
  "distinct (map fst es) \<Longrightarrow> \<forall>e \<in> set es. map_of (rooms s) (fst e) = Some (snd e) \<Longrightarrow>
   shrinks s (fold (cleanupRoom now) es s)"
proof (induction es arbitrary: s)
  case Nil
  show ?case by (simp add: shrinks_refl)
next
  case (Cons e es)
  have first: "shrinks s (cleanupRoom now e s)"
    using Cons.prems by (simp add: shrinks_cleanupRoom)
  have "\<forall>e' \<in> set es. map_of (rooms (cleanupRoom now e s)) (fst e') = Some (snd e')"
  proof
    fix e'
    assume e': "e' \<in> set es"
    then have "fst e' \<noteq> fst e"
      using Cons.prems(1) by (force simp: image_iff)
    then show "map_of (rooms (cleanupRoom now e s)) (fst e') = Some (snd e')"
      using Cons.prems(2) e' by (simp add: cleanupRoom_other)
  qed
  then have "shrinks (cleanupRoom now e s) (fold (cleanupRoom now) es (cleanupRoom now e s))"
    using Cons.IH Cons.prems(1) by simp
  then show ?case
    using first by (auto intro: shrinks_trans)
qed

lemma shrinks_cleanup:
  "distinct (map fst (rooms s)) \<Longrightarrow> shrinks s (cleanup now s)"
  unfolding cleanup_def by (rule shrinks_fold_cleanupRoom) auto

lemma relayInv_shrink:
  assumes inv: "relayInv h"
    and sh: "shrinks (roomManager h) rm'"
    and conn: "set c' \<subseteq> set (connectedSockets h)"
    and rooms: "\<And>t k. t \<in> set c' \<Longrightarrow> (t, k) \<in> set (adapterRooms h) \<Longrightarrow>
       (t, k) \<in> set a' \<or> (map_of (userToRoom rm') t \<noteq> Some k \<and> t \<notin> usersOf k rm')"
  shows "relayInv (h\<lparr>roomManager := rm', connectedSockets := c', adapterRooms := a'\<rparr>)"
  unfolding relayInv_def
proof (intro conjI allI impI)
  show "storedUnderId (roomManager (h\<lparr>roomManager := rm', connectedSockets := c', adapterRooms := a'\<rparr>))"
  proof -
    have "id_r room' = k" if stored: "map_of (rooms rm') k = Some room'" for k room'
    proof -
      obtain room where "map_of (rooms (roomManager h)) k = Some room" "id_r room' = id_r room"
        using sh stored unfolding shrinks_def by blast
      then show ?thesis
        using inv unfolding relayInv_def storedUnderId_def by simp
    qed
    then show ?thesis by (simp add: storedUnderId_def)
  qed
next
  show "distinct (map fst (rooms (roomManager (h\<lparr>roomManager := rm', connectedSockets := c', adapterRooms := a'\<rparr>))))"
    using inv sh unfolding relayInv_def shrinks_def by simp
next
  fix t k
  assume "t \<in> set (connectedSockets (h\<lparr>roomManager := rm', connectedSockets := c', adapterRooms := a'\<rparr>)) \<and>
    map_of (userToRoom (roomManager (h\<lparr>roomManager := rm', connectedSockets := c', adapterRooms := a'\<rparr>))) t = Some k"
  then have t: "t \<in> set c'" and i: "map_of (userToRoom rm') t = Some k" by simp_all
  have "map_of (userToRoom (roomManager h)) t = Some k"
    using i sh unfolding shrinks_def by blast
  then have "(t, k) \<in> set (adapterRooms h)"
    using inv t conn unfolding relayInv_def by blast
  then show "(t, k) \<in> set (adapterRooms (h\<lparr>roomManager := rm', connectedSockets := c', adapterRooms := a'\<rparr>))"
    using rooms [OF t] i by auto
next
  fix t k
  assume "t \<in> set (connectedSockets (h\<lparr>roomManager := rm', connectedSockets := c', adapterRooms := a'\<rparr>)) \<and>
    t \<in> usersOf k (roomManager (h\<lparr>roomManager := rm', connectedSockets := c', adapterRooms := a'\<rparr>))"
  then have t: "t \<in> set c'" and m: "t \<in> usersOf k rm'" by simp_all
  have "t \<in> usersOf k (roomManager h)"
  proof -
    obtain room' where r': "map_of (rooms rm') k = Some room'" "t \<in> fst ` set (users room')"
      using m unfolding usersOf_def by (auto split: option.splits)
    then obtain room where "map_of (rooms (roomManager h)) k = Some room"
        "fst ` set (users room') \<subseteq> fst ` set (users room)"
      using sh unfolding shrinks_def by blast
    then show ?thesis
      using r' unfolding usersOf_def by auto
  qed
  then have "(t, k) \<in> set (adapterRooms h)"
    using inv t conn unfolding relayInv_def by blast
  then show "(t, k) \<in> set (adapterRooms (h\<lparr>roomManager := rm', connectedSockets := c', adapterRooms := a'\<rparr>))"
    using rooms [OF t] m by auto
qed

lemma relayInv_store:
  assumes "relayInv h" and "shrinks (roomManager h) rm'"
  shows "relayInv (h\<lparr>roomManager := rm'\<rparr>)"
proof -
  have "relayInv (h\<lparr>roomManager := rm', connectedSockets := connectedSockets h,
                    adapterRooms := adapterRooms h\<rparr>)"
    using assms by (intro relayInv_shrink) auto
  then show ?thesis by simp
qed

lemma relayInv_heartbeat: "relayInv h \<Longrightarrow> relayInv (heartbeat now h)"
proof -
  assume inv: "relayInv h"
  let ?s1 = "fold (updateUserActivity now) (connectedSockets h) (roomManager h)"
  have a: "shrinks (roomManager h) ?s1"
    by (rule fold_updateUserActivity)
  have "distinct (map fst (rooms (roomManager h)))"
    using inv by (simp add: relayInv_def)
  then have "distinct (map fst (rooms ?s1))"
    using a by (simp add: shrinks_def)
  then have "shrinks ?s1 (cleanup now ?s1)"
    by (rule shrinks_cleanup)
  then have "shrinks (roomManager h) (cleanup now ?s1)"
    using a by (blast intro: shrinks_trans)
  then show ?thesis
    using inv by (simp add: heartbeat_def relayInv_store)
qed

lemma relayInv_urlChange: "relayInv h \<Longrightarrow> relayInv (fst (handleUrlChange t now url h))"
  by (auto simp: handleUrlChange_def relayInv_store shrinks_updateRoomUrl split: option.splits)

lemma relayInv_disconnect: "relayInv h \<Longrightarrow> relayInv (fst (onDisconnect t now h))"
proof -
  assume inv: "relayInv h"
  let ?rm = "snd (leaveRoom now t (roomManager h))"
  let ?a = "filter (\<lambda>(t', r). t' \<noteq> t) (adapterRooms h)"
  let ?c = "removeAll t (connectedSockets h)"
  have "relayInv (h\<lparr>roomManager := ?rm, connectedSockets := ?c, adapterRooms := ?a\<rparr>)"
    using inv by (intro relayInv_shrink shrinks_leaveRoom) auto
  moreover have "fst (onDisconnect t now h)
      = h\<lparr>roomManager := ?rm, connectedSockets := ?c, adapterRooms := ?a\<rparr>"
    by (simp add: onDisconnect_def handleDisconnect_def Let_def getUserRoom_after_leaveRoom
          split: prod.splits)
  ultimately show ?thesis by simp
qed

lemma getUserRoom_SomeD:
  "getUserRoom t s = Some room \<Longrightarrow>
   \<exists>k. map_of (userToRoom s) t = Some k \<and> k \<noteq> [] \<and> map_of (rooms s) k = Some room"
  by (auto simp: getUserRoom_def split: option.splits if_splits)

lemma leaveRoom_removes:
  assumes "map_of (userToRoom s) t = Some k" "k \<noteq> []" "map_of (rooms s) k = Some room"
  shows "map_of (userToRoom (snd (leaveRoom now t s))) t = None"
    and "t \<notin> usersOf k (snd (leaveRoom now t s))"
  using assms
  by (auto simp: leaveRoom_def Let_def usersOf_def update_conv' delete_conv' keys_updateHost
        keys_delete)

lemma relayInv_leave: "relayInv h \<Longrightarrow> relayInv (fst (handleLeaveRoom t now h))"
proof (cases "getUserRoom t (roomManager h)")
  case None
  assume "relayInv h"
  then show ?thesis using None by (simp add: handleLeaveRoom_def)
next
  case (Some room)
  assume inv: "relayInv h"
  obtain k where k: "map_of (userToRoom (roomManager h)) t = Some k" "k \<noteq> []"
      "map_of (rooms (roomManager h)) k = Some room"
    using getUserRoom_SomeD [OF Some] by blast
  have idk: "id_r room = k"
    using inv k(3) by (simp add: relayInv_def storedUnderId_def)
  let ?rm = "snd (leaveRoom now t (roomManager h))"
  let ?a = "socketLeave t k (adapterRooms h)"
  have "relayInv (h\<lparr>roomManager := ?rm, connectedSockets := connectedSockets h,
                    adapterRooms := ?a\<rparr>)"
  proof (intro relayInv_shrink [OF inv] shrinks_leaveRoom)
    show "set (connectedSockets h) \<subseteq> set (connectedSockets h)" by simp
  next
    fix t' k'
    assume "t' \<in> set (connectedSockets h)" and in_a: "(t', k') \<in> set (adapterRooms h)"
    show "(t', k') \<in> set ?a \<or>
          (map_of (userToRoom ?rm) t' \<noteq> Some k' \<and> t' \<notin> usersOf k' ?rm)"
    proof (cases "(t', k') = (t, k)")
      case True
      then show ?thesis using leaveRoom_removes [OF k, of now] by simp
    next
      case False
      then show ?thesis using in_a by (simp add: socketLeave_def)
    qed
  qed
  moreover have "fst (handleLeaveRoom t now h)
      = h\<lparr>roomManager := ?rm, connectedSockets := connectedSockets h, adapterRooms := ?a\<rparr>"
    using Some idk by (simp add: handleLeaveRoom_def Let_def)
  ultimately show ?thesis by simp
qed

lemma set_socketJoin: "set (socketJoin t r a) = insert (t, r) (set a)"
  by (auto simp: socketJoin_def)

lemma knownSocket_user:
  assumes "\<not> knownSocket t h"
  shows "map_of (userToRoom (roomManager h)) t = None"
    and "t \<notin> usersOf k (roomManager h)"
    and "t \<notin> set (connectedSockets h)"
proof -
  show "map_of (userToRoom (roomManager h)) t = None"
    using assms by (simp add: knownSocket_def)
  show "t \<notin> set (connectedSockets h)"
    using assms by (simp add: knownSocket_def)
  show "t \<notin> usersOf k (roomManager h)"
  proof
    assume "t \<in> usersOf k (roomManager h)"
    then obtain room where r: "map_of (rooms (roomManager h)) k = Some room"
        "t \<in> fst ` set (users room)"
      by (auto simp: usersOf_def split: option.splits)
    then have "(k, room) \<in> set (rooms (roomManager h))"
      by (simp add: map_of_SomeD)
    moreover have "map_of (users room) t \<noteq> None"
      using r(2) by (simp add: map_of_eq_None_iff)
    ultimately have "list_ex (\<lambda>(k, room). map_of (users room) t \<noteq> None) (rooms (roomManager h))"
      unfolding list_ex_iff by blast
    then show False
      using assms by (simp add: knownSocket_def)
  qed
qed

lemma relayInv_connect:
  assumes inv: "relayInv h" and new: "\<not> knownSocket t h"
  shows "relayInv (onConnect t h)"
  using inv knownSocket_user [OF new]
  unfolding relayInv_def onConnect_def
  by (auto simp: set_socketJoin)

lemma usersOf_createRoom:
  "usersOf k (snd (createRoom now roomId name pw maxU s)) = (if k = roomId then {} else usersOf k s)"
  by (simp add: usersOf_def createRoom_def Let_def update_conv')

lemma relayInv_createRoom:
  assumes inv: "relayInv h"
  shows "relayInv (fst (handleCreateRoom t now roomId name pw maxU h))"
proof -
  let ?rm = "snd (createRoom now roomId name pw maxU (roomManager h))"
  have h': "fst (handleCreateRoom t now roomId name pw maxU h)
      = h\<lparr>roomManager := ?rm, adapterRooms := socketJoin t roomId (adapterRooms h)\<rparr>"
    by (simp add: handleCreateRoom_def createRoom_def Let_def)
  have k: "storedUnderId ?rm"
    using inv by (auto simp: relayInv_def storedUnderId_def createRoom_def Let_def update_conv')
  have d: "distinct (map fst (rooms ?rm))"
    using inv by (simp add: relayInv_def createRoom_def Let_def distinct_update)
  have i: "userToRoom ?rm = userToRoom (roomManager h)"
    by (simp add: createRoom_def Let_def)
  show ?thesis
    unfolding h' relayInv_def using inv k d
    by (auto simp: relayInv_def i usersOf_createRoom set_socketJoin split: if_splits)
qed

lemma joinRoom_success:
  assumes "joinRoom now roomId t userName pw s = (Inr room', s')"
  shows "\<exists>room user. map_of (rooms s) roomId = Some room \<and>
           room' = room\<lparr>users := AList.update t user (users room), lastActivity_r := now\<rparr> \<and>
           s' = s\<lparr>rooms := AList.update roomId room' (rooms s),
                  userToRoom := AList.update t roomId (userToRoom s)\<rparr>"
  using assms by (auto simp: joinRoom_def Let_def split: option.splits if_splits)

lemma joinRoom_error:
  "joinRoom now roomId t userName pw s = (Inl e, s') \<Longrightarrow> s' = s"
  by (auto simp: joinRoom_def Let_def split: option.splits if_splits)

lemma relayInv_joinRoom:
  assumes inv: "relayInv h" and conn: "t \<in> set (connectedSockets h)"
  shows "relayInv (fst (handleJoinRoom t now roomId userName pw h))"
proof (cases "joinRoom now roomId t userName pw (roomManager h)")
  case (Pair res s')
  show ?thesis
  proof (cases res)
    case (Inl e)
    then have "s' = roomManager h"
      using Pair joinRoom_error by blast
    then show ?thesis
      using inv Pair Inl by (simp add: handleJoinRoom_def)
  next
    case (Inr room')
    then obtain room user where r: "map_of (rooms (roomManager h)) roomId = Some room"
        "room' = room\<lparr>users := AList.update t user (users room), lastActivity_r := now\<rparr>"
        "s' = (roomManager h)\<lparr>rooms := AList.update roomId room' (rooms (roomManager h)),
                 userToRoom := AList.update t roomId (userToRoom (roomManager h))\<rparr>"
      using Pair joinRoom_success by blast
    have idk: "id_r room' = roomId"
      using inv r(1,2) by (simp add: relayInv_def storedUnderId_def)
    have h': "fst (handleJoinRoom t now roomId userName pw h)
        = h\<lparr>roomManager := s', adapterRooms := socketJoin t roomId (adapterRooms h)\<rparr>"
      using Pair Inr idk by (simp add: handleJoinRoom_def Let_def)
    have k: "storedUnderId s'"
      using inv idk r(3) by (auto simp: relayInv_def storedUnderId_def update_conv')
    have d: "distinct (map fst (rooms s'))"
      using inv r(3) by (simp add: relayInv_def distinct_update)
    have u: "usersOf k' s' = (if k' = roomId then insert t (usersOf roomId (roomManager h))
                              else usersOf k' (roomManager h))" for k'
      using r by (auto simp: usersOf_def update_conv' dom_update)
    have i: "map_of (userToRoom s') t' = (if t' = t then Some roomId
                                          else map_of (userToRoom (roomManager h)) t')" for t'
      using r(3) by (simp add: update_conv')
    show ?thesis
      unfolding h' relayInv_def using inv k d
      by (auto simp: relayInv_def u i set_socketJoin split: if_splits)
  qed
qed

lemma relayInv_step: "relayInv h \<Longrightarrow> relayInv (fst (relayStep i h))"
proof (cases "accepted i h")
  case False
  assume "relayInv h"
  then show ?thesis using False by (simp add: relayStep_def)
next
  case True
  assume inv: "relayInv h"
  show ?thesis
  proof (cases i)
    case (Connect t)
    then show ?thesis using inv True
      by (simp add: relayStep_def accepted_def relayInv_connect)
  next
    case (CreateRoomMsg t now roomId name pw maxU)
    then show ?thesis using inv True by (simp add: relayStep_def relayInv_createRoom)
  next
    case (JoinRoomMsg t now roomId userName pw)
    then show ?thesis using inv True
      by (simp add: relayStep_def accepted_def relayInv_joinRoom)
  next
    case (LeaveRoomMsg t now)
    then show ?thesis using inv True by (simp add: relayStep_def relayInv_leave)
  next
    case (UrlChangeMsg t now url)
    then show ?thesis using inv True by (simp add: relayStep_def relayInv_urlChange)
  next
    case (ControlMsg t body)
    then show ?thesis using inv True by (simp add: relayStep_def)
  next
    case (WebrtcMsg t kind target body)
    then show ?thesis using inv True by (simp add: relayStep_def)
  next
    case (Disconnect t now)
    then show ?thesis using inv True by (simp add: relayStep_def relayInv_disconnect)
  next
    case (Heartbeat now)
    then show ?thesis using inv True by (simp add: relayStep_def relayInv_heartbeat)
  next
    case (TimersDue now)
    then show ?thesis using inv True
      by (simp add: relayStep_def relayInv_store shrinks_runTimers)
  qed
qed

lemma relayInv_fold:
  "relayInv h \<Longrightarrow> relayInv (fold (\<lambda>i h. fst (relayStep i h)) ins h)"
  by (induction ins arbitrary: h) (simp_all add: relayInv_step)

lemma relayInv_run: "relayInv (relayRun ins)"
  unfolding relayRun_def
  by (rule relayInv_fold)
     (simp add: relayInv_def newSignalingHandler_def newRoomManager_def storedUnderId_def
        usersOf_def)


lemmas relay_defs =
  relayRun_def relayStep_def accepted_def knownSocket_def newSignalingHandler_def
  onConnect_def onDisconnect_def handleDisconnect_def handleCreateRoom_def handleJoinRoom_def
  handleLeaveRoom_def handleUrlChange_def handleControlMessage_def handleWebRTC_def
  heartbeat_def socketJoin_def socketLeave_def socketsIn_def ioTo_def socketTo_def


lemma mem_socketTo:
  "(u, ev) \<in> set (socketTo t r a ev) \<longleftrightarrow> u \<noteq> t \<and> (u, r) \<in> set a"
  by (auto simp: socketTo_def socketsIn_def image_iff)

lemma leave_notifies_remaining:
  assumes conn: "t \<in> set (connectedSockets (relayRun ins))"
    and room: "getUserRoom t (roomManager (relayRun ins)) = Some room"
    and u: "u \<in> fst ` set (users room)" "u \<noteq> t" "u \<in> set (connectedSockets (relayRun ins))"
  shows "(u, UserLeft t (map snd (updateHost (AList.delete t (users room)))))
           \<in> set (snd (relayStep (LeaveRoomMsg t now) (relayRun ins)))"
proof -
  let ?h = "relayRun ins"
  have inv: "relayInv ?h" by (rule relayInv_run)
  obtain k where k: "map_of (userToRoom (roomManager ?h)) t = Some k" "k \<noteq> []"
      "map_of (rooms (roomManager ?h)) k = Some room"
    using getUserRoom_SomeD [OF room] by blast
  have idk: "id_r room = k"
    using inv k(3) by (simp add: relayInv_def storedUnderId_def)
  have us: "getRoomUsers k (snd (leaveRoom now t (roomManager ?h)))
      = map snd (updateHost (AList.delete t (users room)))"
    using k by (simp add: getRoomUsers_def leaveRoom_def Let_def update_conv' updateHost_def)
  have "u \<in> usersOf k (roomManager ?h)"
    using u(1) k(3) by (simp add: usersOf_def)
  then have "(u, k) \<in> set (adapterRooms ?h)"
    using inv u(3) unfolding relayInv_def by blast
  then have "(u, k) \<in> set (socketLeave t k (adapterRooms ?h))"
    using u(2) by (simp add: socketLeave_def)
  then show ?thesis
    using conn room idk us u(2)
    by (simp add: relayStep_def accepted_def handleLeaveRoom_def Let_def mem_socketTo)
qed

section \<open>joinRoom: order of the checks, no mutation on error\<close>

text \<open>
  C3. \<open>joinRoom\<close> checks, in this order, that the room exists, that the password
  matches when the room has one, that the room is not full and that the user is not in
  it yet; it returns the error of the first check that fails, and whenever it returns
  an error the whole state (every room with its users and timestamps, and the reverse
  index) is the state it was called in.
\<close>

theorem joinRoom_checks_in_order:
  "(map_of (rooms s) roomId = None \<longrightarrow>
      joinRoom now roomId userId userName pw s = (Inl ''Room not found'', s)) \<and>
   (\<forall>room. map_of (rooms s) roomId = Some room \<longrightarrow>
      (truthy (password room) \<and> password room \<noteq> pw \<longrightarrow>
         joinRoom now roomId userId userName pw s = (Inl ''Invalid password'', s)) \<and>
      (\<not> (truthy (password room) \<and> password room \<noteq> pw) \<and>
       maxUsers room \<le> int (length (users room)) \<longrightarrow>
         joinRoom now roomId userId userName pw s = (Inl ''Room is full'', s)) \<and>
      (\<not> (truthy (password room) \<and> password room \<noteq> pw) \<and>
       \<not> maxUsers room \<le> int (length (users room)) \<and>
       map_of (users room) userId \<noteq> None \<longrightarrow>
         joinRoom now roomId userId userName pw s = (Inl ''User already in room'', s)) \<and>
      (\<not> (truthy (password room) \<and> password room \<noteq> pw) \<and>
       \<not> maxUsers room \<le> int (length (users room)) \<and>
       map_of (users room) userId = None \<longrightarrow>
         (\<exists>room'. fst (joinRoom now roomId userId userName pw s) = Inr room'))) \<and>
   (\<forall>e. fst (joinRoom now roomId userId userName pw s) = Inl e \<longrightarrow>
      snd (joinRoom now roomId userId userName pw s) = s)"
  by (auto simp: joinRoom_def Let_def split: option.splits)


theorem joinRoom_checks_in_order_witness:
  "joinRoom 5 ''r9'' ''a'' ''Ann'' None
     (run [CreateRoom 0 ''r1'' ''R'' (Some ''pw'') (Some 1),
           JoinRoom 1 ''r1'' ''a'' ''Ann'' (Some ''pw'')])
     = (Inl ''Room not found'',
        run [CreateRoom 0 ''r1'' ''R'' (Some ''pw'') (Some 1),
             JoinRoom 1 ''r1'' ''a'' ''Ann'' (Some ''pw'')]) \<and>
   joinRoom 5 ''r1'' ''a'' ''Ann'' (Some ''no'')
     (run [CreateRoom 0 ''r1'' ''R'' (Some ''pw'') (Some 1),
           JoinRoom 1 ''r1'' ''a'' ''Ann'' (Some ''pw'')])
     = (Inl ''Invalid password'',
        run [CreateRoom 0 ''r1'' ''R'' (Some ''pw'') (Some 1),
             JoinRoom 1 ''r1'' ''a'' ''Ann'' (Some ''pw'')]) \<and>
   joinRoom 5 ''r1'' ''a'' ''Ann'' (Some ''pw'')
     (run [CreateRoom 0 ''r1'' ''R'' (Some ''pw'') (Some 1),
           JoinRoom 1 ''r1'' ''a'' ''Ann'' (Some ''pw'')])
     = (Inl ''Room is full'',
        run [CreateRoom 0 ''r1'' ''R'' (Some ''pw'') (Some 1),
             JoinRoom 1 ''r1'' ''a'' ''Ann'' (Some ''pw'')]) \<and>
   joinRoom 5 ''r1'' ''a'' ''Ann'' None
     (run [CreateRoom 0 ''r1'' ''R'' None (Some 2),
           JoinRoom 1 ''r1'' ''a'' ''Ann'' None])
     = (Inl ''User already in room'',
        run [CreateRoom 0 ''r1'' ''R'' None (Some 2),
             JoinRoom 1 ''r1'' ''a'' ''Ann'' None]) \<and>
   (\<exists>room'. fst (joinRoom 5 ''r1'' ''b'' ''Bob'' None
     (run [CreateRoom 0 ''r1'' ''R'' None (Some 2),
           JoinRoom 1 ''r1'' ''a'' ''Ann'' None])) = Inr room')"
  using
    joinRoom_checks_in_order [of
      "run [CreateRoom 0 ''r1'' ''R'' (Some ''pw'') (Some 1),
            JoinRoom 1 ''r1'' ''a'' ''Ann'' (Some ''pw'')]" "''r9''" 5 "''a''" "''Ann''" None]
    joinRoom_checks_in_order [of
      "run [CreateRoom 0 ''r1'' ''R'' (Some ''pw'') (Some 1),
            JoinRoom 1 ''r1'' ''a'' ''Ann'' (Some ''pw'')]" "''r1''" 5 "''a''" "''Ann''" "Some ''no''"]
    joinRoom_checks_in_order [of
      "run [CreateRoom 0 ''r1'' ''R'' (Some ''pw'') (Some 1),
            JoinRoom 1 ''r1'' ''a'' ''Ann'' (Some ''pw'')]" "''r1''" 5 "''a''" "''Ann''" "Some ''pw''"]
    joinRoom_checks_in_order [of
      "run [CreateRoom 0 ''r1'' ''R'' None (Some 2),
            JoinRoom 1 ''r1'' ''a'' ''Ann'' None]" "''r1''" 5 "''a''" "''Ann''" None]
    joinRoom_checks_in_order [of
      "run [CreateRoom 0 ''r1'' ''R'' None (Some 2),
            JoinRoom 1 ''r1'' ''a'' ''Ann'' None]" "''r1''" 5 "''b''" "''Bob''" None]
  by (simp add: store_defs)

section \<open>leaveRoom\<close>

text \<open>
  C10. \<open>leaveRoom\<close> for a user who is in no room (the reverse index has no entry for the
  user, or the room it names does not exist) returns \<open>false\<close> and changes nothing.
\<close>

theorem leaveRoom_unknown_user:
  "map_of (userToRoom s) userId = None \<or>
   (\<exists>roomId. map_of (userToRoom s) userId = Some roomId \<and> map_of (rooms s) roomId = None)
   \<Longrightarrow> leaveRoom now userId s = (False, s)"
  by (auto simp: leaveRoom_def)

theorem leaveRoom_unknown_user_witness:
  "leaveRoom 7 ''a'' newRoomManager = (False, newRoomManager) \<and>
   leaveRoom 7 ''a'' \<lparr>rooms = [], userToRoom = [(''a'', ''r1'')], timers = []\<rparr>
     = (False, \<lparr>rooms = [], userToRoom = [(''a'', ''r1'')], timers = []\<rparr>)"
  using leaveRoom_unknown_user [of newRoomManager "''a''" 7]
    leaveRoom_unknown_user [of "\<lparr>rooms = [], userToRoom = [(''a'', ''r1'')], timers = []\<rparr>" "''a''" 7]
  by (simp add: newRoomManager_def)

text \<open>
  C9. When a user leaves, members remain and none of them is host, \<open>leaveRoom\<close> makes
  the first remaining member in the insertion order of the room's \<open>users\<close> map the host,
  changes no other member, and the room then has exactly that one host.
\<close>

theorem leaveRoom_promotes_first:
  assumes "map_of (userToRoom s) userId = Some roomId"
    and "roomId \<noteq> []"
    and "map_of (rooms s) roomId = Some room"
    and "AList.delete userId (users room) = (k, u) # rest"
    and "\<not> list_ex (\<lambda>(k, u). isHost u) ((k, u) # rest)"
  shows "fst (leaveRoom now userId s) = True \<and>
         (\<exists>room'. getRoom roomId (snd (leaveRoom now userId s)) = Some room' \<and>
            users room' = (k, u\<lparr>isHost := True\<rparr>) # rest \<and>
            hosts room' = [(k, u\<lparr>isHost := True\<rparr>)])"
proof -
  have nohost: "filter (\<lambda>(k, u). isHost u) rest = []"
    using assms(5) by (auto simp: list_ex_iff filter_empty_conv)
  show ?thesis
    using assms nohost
    by (simp add: leaveRoom_def updateHost_def getRoom_def hosts_def Let_def update_conv')
qed


theorem leaveRoom_promotes_first_witness:
  "fst (leaveRoom 9 ''a''
     (run [CreateRoom 0 ''r1'' ''R'' None None, JoinRoom 1 ''r1'' ''a'' ''Ann'' None,
           JoinRoom 2 ''r1'' ''b'' ''Bob'' None, JoinRoom 3 ''r1'' ''c'' ''Cy'' None])) = True \<and>
   (\<exists>room'. getRoom ''r1'' (snd (leaveRoom 9 ''a''
     (run [CreateRoom 0 ''r1'' ''R'' None None, JoinRoom 1 ''r1'' ''a'' ''Ann'' None,
           JoinRoom 2 ''r1'' ''b'' ''Bob'' None, JoinRoom 3 ''r1'' ''c'' ''Cy'' None])))
       = Some room' \<and>
      users room' =
        [(''b'', \<lparr>id_u = ''b'', name_u = ''Bob'', isHost = True, joinedAt = 2,
                  lastActivity_u = 2\<rparr>),
         (''c'', \<lparr>id_u = ''c'', name_u = ''Cy'', isHost = False, joinedAt = 3,
                  lastActivity_u = 3\<rparr>)] \<and>
      hosts room' =
        [(''b'', \<lparr>id_u = ''b'', name_u = ''Bob'', isHost = True, joinedAt = 2,
                  lastActivity_u = 2\<rparr>)])"
  using leaveRoom_promotes_first [of
    "run [CreateRoom 0 ''r1'' ''R'' None None, JoinRoom 1 ''r1'' ''a'' ''Ann'' None,
          JoinRoom 2 ''r1'' ''b'' ''Bob'' None, JoinRoom 3 ''r1'' ''c'' ''Cy'' None]"
    "''a''" "''r1''"
    "\<lparr>id_r = ''r1'', name_r = ''R'', password = None,
      users = [(''a'', \<lparr>id_u = ''a'', name_u = ''Ann'', isHost = True, joinedAt = 1,
                        lastActivity_u = 1\<rparr>),
               (''b'', \<lparr>id_u = ''b'', name_u = ''Bob'', isHost = False, joinedAt = 2,
                        lastActivity_u = 2\<rparr>),
               (''c'', \<lparr>id_u = ''c'', name_u = ''Cy'', isHost = False, joinedAt = 3,
                        lastActivity_u = 3\<rparr>)],
      currentUrl = ''https://www.google.com'', createdAt = 0, lastActivity_r = 3,
      maxUsers = 10\<rparr>"
    "''b''"
    "\<lparr>id_u = ''b'', name_u = ''Bob'', isHost = False, joinedAt = 2, lastActivity_u = 2\<rparr>"
    "[(''c'', \<lparr>id_u = ''c'', name_u = ''Cy'', isHost = False, joinedAt = 3,
               lastActivity_u = 3\<rparr>)]"
    9]
  by (simp add: run_def newRoomManager_def createRoom_def joinRoom_def truthy_def Let_def)

section \<open>Host and capacity invariants\<close>

text \<open>
  C1. The specification asks that in every reachable state every room with users has exactly one host,
  and \<open>cleanup\<close> preserves this. The run below uses only calls that the relay makes: two
  rooms are created, \<open>a\<close> joins \<open>r1\<close> (and is its host) and then \<open>r2\<close>, so that the
  reverse index names \<open>r2\<close> for \<open>a\<close> and the heartbeat refreshes \<open>a\<close> there only; \<open>b\<close> joins
  \<open>r1\<close>. At the heartbeat 30 minutes later \<open>cleanup\<close> removes \<open>a\<close> from \<open>r1\<close> as inactive
  and, unlike \<open>leaveRoom\<close>, promotes nobody: \<open>r1\<close> holds \<open>b\<close> alone, and \<open>b\<close> is not host.
  The second half reaches the same room through the relay, from the messages of two
  sockets and one heartbeat.
\<close>

theorem cleanup_leaves_room_without_host:
  "getRoom ''r1'' (run [CreateRoom 0 ''r1'' ''R'' None None, CreateRoom 0 ''r2'' ''S'' None None,
      JoinRoom 1000 ''r1'' ''a'' ''Ann'' None, JoinRoom 2000 ''r2'' ''a'' ''Ann'' None,
      JoinRoom 3000 ''r1'' ''b'' ''Bob'' None,
      UpdateUserActivity 1830000 ''a'', UpdateUserActivity 1830000 ''b'', Cleanup 1830000])
   = Some \<lparr>id_r = ''r1'', name_r = ''R'', password = None,
           users = [(''b'', \<lparr>id_u = ''b'', name_u = ''Bob'', isHost = False, joinedAt = 3000,
                             lastActivity_u = 1830000\<rparr>)],
           currentUrl = ''https://www.google.com'', createdAt = 0,
           lastActivity_r = 1830000, maxUsers = 10\<rparr> \<and>
   getRoom ''r1'' (roomManager (relayRun
     [Connect ''a'', Connect ''b'',
      CreateRoomMsg ''a'' 0 ''r1'' ''R'' None None, CreateRoomMsg ''a'' 0 ''r2'' ''S'' None None,
      JoinRoomMsg ''a'' 1000 ''r1'' ''Ann'' None, JoinRoomMsg ''a'' 2000 ''r2'' ''Ann'' None,
      JoinRoomMsg ''b'' 3000 ''r1'' ''Bob'' None, Heartbeat 1830000]))
   = Some \<lparr>id_r = ''r1'', name_r = ''R'', password = None,
           users = [(''b'', \<lparr>id_u = ''b'', name_u = ''Bob'', isHost = False, joinedAt = 3000,
                             lastActivity_u = 1830000\<rparr>)],
           currentUrl = ''https://www.google.com'', createdAt = 0,
           lastActivity_r = 1830000, maxUsers = 10\<rparr>"
  by (simp add: relay_defs store_defs)

text \<open>No operation ever produces a second host: every room of every run has at most one.\<close>

lemma run_atMostOneHost: "\<forall>e \<in> set (rooms (run ops)). length (hosts (snd e)) \<le> 1"
  using atMostOneHost_run [of ops] by (simp add: allRooms_def atMostOneHost_def)

text \<open>
  C4, as stated, fails twice. \<open>createRoom\<close> stores whatever \<open>maxUsers\<close> it is given, so a
  room created with \<open>maxUsers = -1\<close> has more users (none) than its maximum; and a call
  of \<open>joinRoom\<close> on a full room with a wrong password is answered \<open>Invalid password\<close>,
  not \<open>Room is full\<close>, because the password is checked first.
\<close>

theorem capacity_counterexample:
  "getRoom ''r1'' (run [CreateRoom 0 ''r1'' ''R'' None (Some (- 1))]) \<noteq> None \<and>
   \<not> int (length (users (the (getRoom ''r1'' (run [CreateRoom 0 ''r1'' ''R'' None (Some (- 1))])))))
      \<le> maxUsers (the (getRoom ''r1'' (run [CreateRoom 0 ''r1'' ''R'' None (Some (- 1))]))) \<and>
   int (length (users (the (getRoom ''r1''
      (run [CreateRoom 0 ''r1'' ''R'' (Some ''pw'') (Some 1),
            JoinRoom 1 ''r1'' ''a'' ''Ann'' (Some ''pw'')])))))
     = maxUsers (the (getRoom ''r1''
      (run [CreateRoom 0 ''r1'' ''R'' (Some ''pw'') (Some 1),
            JoinRoom 1 ''r1'' ''a'' ''Ann'' (Some ''pw'')]))) \<and>
   fst (joinRoom 5 ''r1'' ''b'' ''Bob'' None
      (run [CreateRoom 0 ''r1'' ''R'' (Some ''pw'') (Some 1),
            JoinRoom 1 ''r1'' ''a'' ''Ann'' (Some ''pw'')])) = Inl ''Invalid password''"
  by (simp add: store_defs)

text \<open>
  C4, amended. In every state that a run of store operations reaches, every room whose
  \<open>maxUsers\<close> is not negative has at most \<open>maxUsers\<close> users; and \<open>joinRoom\<close> on an existing
  room that has reached \<open>maxUsers\<close>, with a password that passes the password check,
  returns \<open>Room is full\<close> and leaves the state as it was.
\<close>

theorem capacity_respected:
  "(\<forall>e \<in> set (rooms (run ops)).
      0 \<le> maxUsers (snd e) \<longrightarrow> int (length (users (snd e))) \<le> maxUsers (snd e)) \<and>
   (getRoom roomId s = Some room \<and> maxUsers room \<le> int (length (users room)) \<and>
    \<not> (truthy (password room) \<and> password room \<noteq> pw) \<longrightarrow>
      joinRoom now roomId userId userName pw s = (Inl ''Room is full'', s))"
  using withinCapacity_run [of ops]
  by (auto simp: allRooms_def withinCapacity_def joinRoom_def getRoom_def)

theorem capacity_respected_witness:
  "rooms (run [CreateRoom 0 ''r1'' ''R'' None (Some 1), JoinRoom 1 ''r1'' ''a'' ''Ann'' None,
               JoinRoom 2 ''r1'' ''b'' ''Bob'' None])
     = [(''r1'', \<lparr>id_r = ''r1'', name_r = ''R'', password = None,
          users = [(''a'', \<lparr>id_u = ''a'', name_u = ''Ann'', isHost = True, joinedAt = 1,
                            lastActivity_u = 1\<rparr>)],
          currentUrl = ''https://www.google.com'', createdAt = 0, lastActivity_r = 1,
          maxUsers = 1\<rparr>)] \<and>
   (0::int) \<le> 1 \<and> int (length [(''a'', \<lparr>id_u = ''a'', name_u = ''Ann'', isHost = True,
                                        joinedAt = 1, lastActivity_u = 1\<rparr>)]) \<le> 1 \<and>
   joinRoom 2 ''r1'' ''b'' ''Bob'' None
     (run [CreateRoom 0 ''r1'' ''R'' None (Some 1), JoinRoom 1 ''r1'' ''a'' ''Ann'' None])
   = (Inl ''Room is full'',
      run [CreateRoom 0 ''r1'' ''R'' None (Some 1), JoinRoom 1 ''r1'' ''a'' ''Ann'' None])"
  using capacity_respected [of
    "[CreateRoom 0 ''r1'' ''R'' None (Some 1), JoinRoom 1 ''r1'' ''a'' ''Ann'' None,
      JoinRoom 2 ''r1'' ''b'' ''Bob'' None]"
    "''r1''"
    "run [CreateRoom 0 ''r1'' ''R'' None (Some 1), JoinRoom 1 ''r1'' ''a'' ''Ann'' None]"
    "\<lparr>id_r = ''r1'', name_r = ''R'', password = None,
      users = [(''a'', \<lparr>id_u = ''a'', name_u = ''Ann'', isHost = True, joinedAt = 1,
                        lastActivity_u = 1\<rparr>)],
      currentUrl = ''https://www.google.com'', createdAt = 0, lastActivity_r = 1,
      maxUsers = 1\<rparr>"
    None 2 "''b''" "''Bob''"]
  by (simp add: store_defs)

section \<open>The grace period of an empty room\<close>




section \<open>Broadcasts of the relay\<close>




text \<open>
  C2. The specification asks that when a user leaves or the user's connection closes, every remaining
  member is notified with the updated member list. In the run below \<open>a\<close> and \<open>b\<close> are in
  room \<open>r1\<close>. When the connection of \<open>a\<close> closes, \<open>b\<close> remains (and becomes host), and
  nothing is emitted: \<open>handleDisconnect\<close> asks for the room of \<open>a\<close> only after
  \<open>leaveRoom\<close> has deleted \<open>a\<close> from the reverse index. In the same state an explicit
  \<open>leave-room\<close> of \<open>a\<close> does send \<open>user-left\<close> with the new list to \<open>b\<close>.
\<close>

theorem disconnect_notifies_nobody:
  "getRoomUsers ''r1'' (roomManager (fst (relayStep (Disconnect ''a'' 9000)
      (relayRun [Connect ''a'', Connect ''b'', CreateRoomMsg ''a'' 0 ''r1'' ''R'' None None,
                 JoinRoomMsg ''a'' 1000 ''r1'' ''Ann'' None,
                 JoinRoomMsg ''b'' 2000 ''r1'' ''Bob'' None]))))
     = [\<lparr>id_u = ''b'', name_u = ''Bob'', isHost = True, joinedAt = 2000,
         lastActivity_u = 2000\<rparr>] \<and>
   snd (relayStep (Disconnect ''a'' 9000)
      (relayRun [Connect ''a'', Connect ''b'', CreateRoomMsg ''a'' 0 ''r1'' ''R'' None None,
                 JoinRoomMsg ''a'' 1000 ''r1'' ''Ann'' None,
                 JoinRoomMsg ''b'' 2000 ''r1'' ''Bob'' None])) = [] \<and>
   snd (relayStep (LeaveRoomMsg ''a'' 9000)
      (relayRun [Connect ''a'', Connect ''b'', CreateRoomMsg ''a'' 0 ''r1'' ''R'' None None,
                 JoinRoomMsg ''a'' 1000 ''r1'' ''Ann'' None,
                 JoinRoomMsg ''b'' 2000 ''r1'' ''Bob'' None]))
     = [(''b'', UserLeft ''a''
          [\<lparr>id_u = ''b'', name_u = ''Bob'', isHost = True, joinedAt = 2000,
            lastActivity_u = 2000\<rparr>])]"
  by (simp add: relay_defs store_defs)

section \<open>The screenshot route\<close>






section \<open>The capture loop of a streaming peer\<close>

text \<open>
  A turn of a capture loop sends its frame to no socket but one that is connected to the
  service under the client id of the loop; and no socket event of the service ends a
  loop that is running.
\<close>

lemma frames_only_to_connected_sockets:
  "(c, ev) \<in> set (intervalTick h shot now st) \<Longrightarrow>
   c \<in> set (ioSockets st) \<and> map_of (intervals st) h = Some c"
  by (auto simp: intervalTick_def split: option.splits if_splits)

lemma intervals_browserStep:
  "set (intervals st) \<subseteq> set (intervals (browserStep i st))"
  by (cases i)
     (auto simp: onConnection_def onWebrtcOffer_def onClientDisconnected_def
        onSocketDisconnect_def startStreaming_def split: Negotiation.splits option.splits)

end
